theory Spec2Isabelle
  imports Main
begin

section \<open>Tasks\<close>

text \<open>
  The controller in \<^verbatim>\<open>qtodotxt/controllers/main_controller.py\<close> works on
  \<^verbatim>\<open>tasklib.Task\<close> objects. Of a task it reads \<^verbatim>\<open>is_complete\<close>, connects
  its \<^verbatim>\<open>modified\<close> signal, and compares it with other tasks (\<^verbatim>\<open>list.remove\<close>).
  A task is a record; \<open>task_id\<close> stands for the identity of the Python object, so that
  two tasks with the same text are still two tasks.
\<close>

type_synonym date = "nat \<times> nat \<times> nat"

record Task =
  task_id :: nat
  rawText :: string
  is_complete :: bool
  dueDate :: "date option"
  projects :: "string list"
  contexts :: "string list"

subsection \<open>The task line reader\<close>

text \<open>
  Modelled from the spec: \<^verbatim>\<open>tasklib.Task(text)\<close> (the Task Codec of section 4.1) is not
  among the sources. The definitions below follow the spec's parsing rules for the
  attributes that the filters of this development read: completion (rule 1), and the
  \<^verbatim>\<open>+project\<close>, \<^verbatim>\<open>@context\<close> and \<^verbatim>\<open>due:YYYY-MM-DD\<close> tokens (rule 3, last due
  date wins, malformed dates stay plain text).
\<close>

definition is_space :: "char \<Rightarrow> bool" where
  "is_space c = (c = CHR '' '' \<or> c = CHR 0x09)"

fun tokens_acc :: "string \<Rightarrow> string \<Rightarrow> string list" where
  "tokens_acc [] cur = (if cur = [] then [] else [cur])"
| "tokens_acc (c # cs) cur =
     (if is_space c then (if cur = [] then tokens_acc cs [] else cur # tokens_acc cs [])
      else tokens_acc cs (cur @ [c]))"

definition tokens :: "string \<Rightarrow> string list" where
  "tokens line = tokens_acc line []"

definition starts_with :: "string \<Rightarrow> string \<Rightarrow> bool" where
  "starts_with p s = (take (length p) s = p)"

definition digit_val :: "char \<Rightarrow> nat option" where
  "digit_val c = map_of (zip ''0123456789'' [0, 1, 2, 3, 4, 5, 6, 7, 8, 9]) c"

fun number_acc :: "string \<Rightarrow> nat \<Rightarrow> nat option" where
  "number_acc [] acc = Some acc"
| "number_acc (c # cs) acc =
     (case digit_val c of None \<Rightarrow> None | Some d \<Rightarrow> number_acc cs (10 * acc + d))"

definition number :: "string \<Rightarrow> nat option" where
  "number s = (if s = [] then None else number_acc s 0)"

definition leap :: "nat \<Rightarrow> bool" where
  "leap y = ((y mod 4 = 0 \<and> y mod 100 \<noteq> 0) \<or> y mod 400 = 0)"

definition days_in_month :: "nat \<Rightarrow> nat \<Rightarrow> nat" where
  "days_in_month y m =
     (if m = 2 then (if leap y then 29 else 28)
      else if m = 4 \<or> m = 6 \<or> m = 9 \<or> m = 11 then 30 else 31)"

definition valid_date :: "nat \<Rightarrow> nat \<Rightarrow> nat \<Rightarrow> bool" where
  "valid_date y m d = (1 \<le> y \<and> 1 \<le> m \<and> m \<le> 12 \<and> 1 \<le> d \<and> d \<le> days_in_month y m)"

definition parse_date :: "string \<Rightarrow> date option" where
  "parse_date s =
     (if length s = 10 \<and> s ! 4 = CHR ''-'' \<and> s ! 7 = CHR ''-'' then
        (case number (take 4 s) of
           None \<Rightarrow> None
         | Some y \<Rightarrow>
             (case number (take 2 (drop 5 s)) of
                None \<Rightarrow> None
              | Some m \<Rightarrow>
                  (case number (drop 8 s) of
                     None \<Rightarrow> None
                   | Some d \<Rightarrow> if valid_date y m d then Some (y, m, d) else None)))
      else None)"

fun date_less :: "date \<Rightarrow> date \<Rightarrow> bool" where
  "date_less (y1, m1, d1) (y2, m2, d2) =
     (y1 < y2 \<or> (y1 = y2 \<and> (m1 < m2 \<or> (m1 = m2 \<and> d1 < d2))))"

definition due_of :: "string list \<Rightarrow> date option" where
  "due_of toks =
     foldl (\<lambda>acc tok.
              if starts_with ''due:'' tok
              then (case parse_date (drop 4 tok) of None \<Rightarrow> acc | Some d \<Rightarrow> Some d)
              else acc)
       None toks"

definition tagged :: "char \<Rightarrow> string list \<Rightarrow> string list" where
  "tagged mark toks = map tl (filter (\<lambda>tok. 1 < length tok \<and> hd tok = mark) toks)"

definition new_Task :: "nat \<Rightarrow> string \<Rightarrow> Task" where
  "new_Task ident line =
     \<lparr> task_id = ident,
       rawText = line,
       is_complete = starts_with ''x '' line,
       dueDate = due_of (tokens line),
       projects = tagged (CHR ''+'') (tokens line),
       contexts = tagged (CHR ''@'') (tokens line) \<rparr>"

definition serialize :: "Task \<Rightarrow> string" where
  "serialize t = rawText t"

section \<open>Filters\<close>

text \<open>
  Modelled from the spec: \<^verbatim>\<open>qtodotxt/lib/filters.py\<close> and \<^verbatim>\<open>tasklib.filterTasks\<close> are
  not among the sources. The controller names four filter classes
  (\<^verbatim>\<open>SimpleTextFilter\<close>, \<^verbatim>\<open>FutureFilter\<close>, \<^verbatim>\<open>IncompleteTasksFilter\<close>,
  \<^verbatim>\<open>CompleteTasksFilter\<close>); the spec (section 4.2) gives their meaning, and that of the
  project and context filters of the filter tree. Filters are stateless values of a
  closed set of variants (section 9), so \<^verbatim>\<open>CompleteTasksFilter() in filters\<close> is
  membership up to equality of variants. A filter set is a conjunction; an empty or
  absent set keeps every task, in order.
\<close>

datatype TaskFilter =
    SimpleTextFilter string
  | FutureFilter
  | IncompleteTasksFilter
  | CompleteTasksFilter
  | ProjectFilter string
  | ContextFilter string

definition lower_char :: "char \<Rightarrow> char" where
  "lower_char c =
     (case map_of (zip ''ABCDEFGHIJKLMNOPQRSTUVWXYZ'' ''abcdefghijklmnopqrstuvwxyz'') c of
        None \<Rightarrow> c
      | Some l \<Rightarrow> l)"

fun contains :: "string \<Rightarrow> string \<Rightarrow> bool" where
  "contains [] sub = (sub = [])"
| "contains (c # cs) sub = (starts_with sub (c # cs) \<or> contains cs sub)"

fun isMatch :: "date \<Rightarrow> TaskFilter \<Rightarrow> Task \<Rightarrow> bool" where
  "isMatch now (SimpleTextFilter txt) t =
     contains (map lower_char (rawText t)) (map lower_char txt)"
| "isMatch now FutureFilter t =
     (case dueDate t of None \<Rightarrow> True | Some d \<Rightarrow> \<not> date_less now d)"
| "isMatch now IncompleteTasksFilter t = (\<not> is_complete t)"
| "isMatch now CompleteTasksFilter t = is_complete t"
| "isMatch now (ProjectFilter p) t = (p \<in> set (projects t))"
| "isMatch now (ContextFilter c) t = (c \<in> set (contexts t))"

definition filterTasks :: "date \<Rightarrow> TaskFilter list option \<Rightarrow> Task list \<Rightarrow> Task list" where
  "filterTasks now filters ts =
     (case filters of
        None \<Rightarrow> ts
      | Some fs \<Rightarrow> filter (\<lambda>t. list_all (\<lambda>f. isMatch now f t) fs) ts)"

section \<open>The controller and its surroundings\<close>

text \<open>
  The methods of \<^verbatim>\<open>MainController\<close> below are \<^verbatim>\<open>__init__\<close>, \<^verbatim>\<open>_taskModified\<close>,
  \<^verbatim>\<open>showError\<close>, \<^verbatim>\<open>newTask\<close>, \<^verbatim>\<open>deleteTask\<close>, the setters of \<^verbatim>\<open>searchText\<close>,
  \<^verbatim>\<open>showCompleted\<close>, \<^verbatim>\<open>showFuture\<close> and \<^verbatim>\<open>modified\<close>, \<^verbatim>\<open>auto_save\<close>,
  \<^verbatim>\<open>_onFilterSelectionChanged\<close>, \<^verbatim>\<open>_applyFilters\<close>,
  \<^verbatim>\<open>_archive_all_done_tasks\<close>, \<^verbatim>\<open>_onFileUpdated\<close>, \<^verbatim>\<open>save\<close>, \<^verbatim>\<open>_updateTitle\<close>,
  \<^verbatim>\<open>open\<close> and \<^verbatim>\<open>_loadFileToUI\<close>, each under its own name without the leading
  underscore. A method that changes the controller takes the state and returns the new
  one.
\<close>

datatype py_error =
    ValueError | IndexError | OverflowError | AttributeError | TypeError
  | WriteError | ErrorLoadingFile

datatype message =
    CurrentFileNotAvailable string py_error
  | ErrorOpeningFile string py_error

datatype signal =
    TaskListChanged
  | ModifiedChanged bool
  | TitleChanged string
  | ErrorSignal message
  | FiltersChanged
  | SearchTextChanged string

text \<open>
  \<^verbatim>\<open>File\<close> (\<^verbatim>\<open>qtodotxt/lib/file.py\<close>, not among the sources): the controller reads and
  writes its \<^verbatim>\<open>filename\<close> and its \<^verbatim>\<open>tasks\<close>, which it uses as a built-in Python list
  (\<^verbatim>\<open>append\<close>, \<^verbatim>\<open>remove\<close>, indexing, slicing, iteration). The source only tests the
  file name for truth, so the empty string stands for both \<^verbatim>\<open>None\<close> and \<^verbatim>\<open>''\<close>.
\<close>

record File =
  filename :: string
  tasks :: "Task list"

text \<open>
  The state: the attributes of \<^verbatim>\<open>MainController\<close>, then what its collaborators hold.
  \<^item> \<open>watched\<close>: the paths the \<^verbatim>\<open>FileObserver\<close> watches.
  \<^item> \<open>last_open_file\<close>, \<open>auto_save_setting\<close>: the two \<^verbatim>\<open>QSettings\<close> keys the
    controller uses; \<open>None\<close> is an unset key.
  \<^item> \<open>connections\<close>: one entry (the task's identity) per call of
    \<^verbatim>\<open>task.modified.connect(self._taskModified)\<close>.
  \<^item> \<open>emitted\<close>: the signals emitted so far, oldest first.
  \<^item> \<open>disk\<close>: the lines of every readable file; \<open>readonly\<close>: the paths a write fails
    on; \<open>done_file\<close>: the lines of the done sink; \<open>notifications\<close>: the file-changed
    events the observer has raised and not yet delivered; \<open>next_id\<close>: the identity the
    next task object gets; \<open>today\<close>: the clock's date.
  The visible list \<open>tasksList\<close> and the file's \<open>tasks\<close> are two lists: \<^verbatim>\<open>start\<close> copies
  (\<^verbatim>\<open>self._file.tasks[:]\<close>), and the filter engine is taken to return a list of its own.
\<close>

record MainController =
  tasksList :: "Task list"
  showCompleted :: bool
  showFuture :: bool
  the_file :: File
  modified :: bool
  title :: string
  searchText :: string
  watched :: "string list"
  last_open_file :: "string option"
  auto_save_setting :: "int option"
  connections :: "nat list"
  emitted :: "signal list"
  disk :: "string \<Rightarrow> string list option"
  readonly :: "string list"
  done_file :: "string list"
  notifications :: "string list"
  next_id :: nat
  today :: date

definition emit :: "MainController \<Rightarrow> signal \<Rightarrow> MainController" where
  "emit s sig = s\<lparr>emitted := emitted s @ [sig]\<rparr>"

subsection \<open>Python lists\<close>

text \<open>
  \<^verbatim>\<open>list.insert(i, x)\<close> takes its index as a machine integer (\<^verbatim>\<open>Py_ssize_t\<close>, 64 bits
  here): an index outside that range raises \<^verbatim>\<open>OverflowError\<close>, for which \<open>py_insert\<close>
  returns \<open>None\<close>. Within the range it never raises: an index past the end appends, a
  negative index counts from the end and stops at the front. \<^verbatim>\<open>xs[i]\<close> raises
  \<^verbatim>\<open>IndexError\<close> out of range, and \<^verbatim>\<open>xs.remove(x)\<close> raises \<^verbatim>\<open>ValueError\<close> when no
  element equals \<open>x\<close>.
\<close>

definition ssize_max :: int where
  "ssize_max = 9223372036854775807"

definition ssize_min :: int where
  "ssize_min = - 9223372036854775808"

definition py_insert :: "'a list \<Rightarrow> int \<Rightarrow> 'a \<Rightarrow> 'a list option" where
  "py_insert xs i x =
     (if i < ssize_min \<or> ssize_max < i then None
      else (let n = int (length xs);
                j = (if i < 0 then max 0 (n + i) else min i n)
            in Some (take (nat j) xs @ [x] @ drop (nat j) xs)))"

definition py_get :: "'a list \<Rightarrow> int \<Rightarrow> 'a option" where
  "py_get xs i =
     (if 0 \<le> i \<and> i < int (length xs) then Some (xs ! nat i)
      else if i < 0 \<and> - int (length xs) \<le> i then Some (xs ! nat (int (length xs) + i))
      else None)"

definition py_remove :: "'a list \<Rightarrow> 'a \<Rightarrow> 'a list option" where
  "py_remove xs x = (if x \<in> set xs then Some (remove1 x xs) else None)"

subsection \<open>Title and the modified property\<close>

definition basename :: "string \<Rightarrow> string" where
  "basename p = rev (takeWhile (\<lambda>c. c \<noteq> CHR ''/'') (rev p))"

definition updateTitle :: "MainController \<Rightarrow> MainController" where
  "updateTitle s =
     (let t0 = ''QTodoTxt - '';
          t1 = (if filename (the_file s) \<noteq> [] then t0 @ basename (filename (the_file s))
                else t0 @ ''Untitled'');
          t2 = (if modified s then t1 @ '' (*)'' else t1)
      in emit (s\<lparr>title := t2\<rparr>) (TitleChanged t2))"

definition set_modified :: "MainController \<Rightarrow> bool \<Rightarrow> MainController" where
  "set_modified s val = emit (updateTitle (s\<lparr>modified := val\<rparr>)) (ModifiedChanged val)"

definition taskModified :: "MainController \<Rightarrow> Task \<Rightarrow> MainController" where
  "taskModified s task = set_modified s True"

definition showError :: "MainController \<Rightarrow> message \<Rightarrow> MainController" where
  "showError s msg = emit s (ErrorSignal msg)"

subsection \<open>newTask and deleteTask\<close>

text \<open>
  \<^verbatim>\<open>newTask\<close> returns an index or raises; an exception leaves the state as it is at
  the raise. When \<^verbatim>\<open>insert\<close> raises, the task has been created, connected and appended
  to the file's tasks already.
\<close>

definition newTask ::
  "MainController \<Rightarrow> string \<Rightarrow> int option \<Rightarrow> (py_error + int) \<times> MainController" where
  "newTask s txt after =
     (let task = new_Task (next_id s) txt;
          s1 = s\<lparr>next_id := Suc (next_id s),
                 connections := connections s @ [task_id task]\<rparr>;
          after' = (case after of None \<Rightarrow> int (length (tasksList s1)) - 1 | Some a \<Rightarrow> a);
          s2 = s1\<lparr>the_file := (the_file s1)\<lparr>tasks := tasks (the_file s1) @ [task]\<rparr>\<rparr>
      in case py_insert (tasksList s2) (after' + 1) task of
           None \<Rightarrow> (Inl OverflowError, s2)
         | Some visible \<Rightarrow>
             (let s3 = s2\<lparr>tasksList := visible\<rparr>;
                  s4 = set_modified s3 True;
                  s5 = emit s4 TaskListChanged
              in (Inr (after' + 1), s5)))"

subsection \<open>Applying the filters\<close>

definition py_falsy :: "'a list option \<Rightarrow> bool" where
  "py_falsy filters = (case filters of None \<Rightarrow> True | Some fs \<Rightarrow> fs = [])"

definition py_in :: "'a \<Rightarrow> 'a list option \<Rightarrow> bool" where
  "py_in x filters = (case filters of None \<Rightarrow> False | Some fs \<Rightarrow> x \<in> set fs)"

definition applyFilters :: "MainController \<Rightarrow> TaskFilter list option \<Rightarrow> MainController" where
  "applyFilters s filters =
     (let ts0 = filterTasks (today s) filters (tasks (the_file s));
          ts1 = (if searchText s \<noteq> []
                 then filterTasks (today s) (Some [SimpleTextFilter (searchText s)]) ts0
                 else ts0);
          ts2 = (if \<not> showFuture s
                 then filterTasks (today s) (Some [FutureFilter]) ts1
                 else ts1);
          ts3 = (if \<not> showCompleted s \<and> (py_falsy filters \<or> \<not> py_in CompleteTasksFilter filters)
                 then filterTasks (today s) (Some [IncompleteTasksFilter]) ts2
                 else ts2)
      in emit (s\<lparr>tasksList := ts3\<rparr>) TaskListChanged)"

datatype task_ref = ByTask Task | ByIndex int

definition deleteTask :: "MainController \<Rightarrow> task_ref \<Rightarrow> py_error option \<times> MainController" where
  "deleteTask s arg =
     (case (case arg of ByTask t \<Rightarrow> Some t | ByIndex i \<Rightarrow> py_get (tasks (the_file s)) i) of
        None \<Rightarrow> (Some IndexError, s)
      | Some task \<Rightarrow>
          (case py_remove (tasks (the_file s)) task of
             None \<Rightarrow> (Some ValueError, s)
           | Some rest \<Rightarrow>
               (let s1 = s\<lparr>the_file := (the_file s)\<lparr>tasks := rest\<rparr>\<rparr>;
                    s2 = set_modified s1 True
                in (None, applyFilters s2 None))))"

subsection \<open>The file, the done sink and the observer\<close>

text \<open>
  Modelled from the spec: \<^verbatim>\<open>File.load\<close>, \<^verbatim>\<open>File.save\<close>, \<^verbatim>\<open>File.saveDoneTask\<close> and
  \<^verbatim>\<open>FileObserver\<close> (\<^verbatim>\<open>qtodotxt/lib/file.py\<close>) are not among the sources.
  \<^item> Section 4.4: \<^verbatim>\<open>load\<close> fails when the path cannot be read and then leaves the bound
    file as it was; otherwise every line becomes a new task (trailing blank lines are
    ignored, section 6). \<^verbatim>\<open>save\<close> writes one serialized line per task, overwriting the
    file, and fails on an I/O error. The done sink gets one serialized line appended.
  \<^item> Section 4.5: a write to a path raises a file-changed event exactly when the
    observer watches that path at that moment; \<^verbatim>\<open>clear\<close> stops watching every path
    (suspend), \<^verbatim>\<open>addPath\<close> watches a path again (resume).
\<close>

fun tasks_of_lines :: "nat \<Rightarrow> string list \<Rightarrow> Task list" where
  "tasks_of_lines n [] = []"
| "tasks_of_lines n (l # ls) = new_Task n l # tasks_of_lines (Suc n) ls"

definition blank :: "string \<Rightarrow> bool" where
  "blank l = list_all is_space l"

definition strip_trailing_blank :: "string list \<Rightarrow> string list" where
  "strip_trailing_blank ls = rev (dropWhile blank (rev ls))"

definition File_load :: "MainController \<Rightarrow> string \<Rightarrow> py_error option \<times> MainController" where
  "File_load s path =
     (case disk s path of
        None \<Rightarrow> (Some ErrorLoadingFile, s)
      | Some ls \<Rightarrow>
          (let ls' = strip_trailing_blank ls
           in (None, s\<lparr>the_file := \<lparr>filename = path, tasks = tasks_of_lines (next_id s) ls'\<rparr>,
                        next_id := next_id s + length ls'\<rparr>)))"

definition write_disk :: "MainController \<Rightarrow> string \<Rightarrow> string list \<Rightarrow> MainController" where
  "write_disk s path ls =
     s\<lparr>disk := (disk s)(path \<mapsto> ls),
       notifications := notifications s @ (if path \<in> set (watched s) then [path] else [])\<rparr>"

definition File_save :: "MainController \<Rightarrow> string \<Rightarrow> py_error option \<times> MainController" where
  "File_save s path =
     (if path \<in> set (readonly s) then (Some WriteError, s)
      else (None, write_disk (s\<lparr>the_file := (the_file s)\<lparr>filename := path\<rparr>\<rparr>) path
                    (map serialize (tasks (the_file s)))))"

definition saveDoneTask :: "MainController \<Rightarrow> Task \<Rightarrow> MainController" where
  "saveDoneTask s task = s\<lparr>done_file := done_file s @ [serialize task]\<rparr>"

definition observer_clear :: "MainController \<Rightarrow> MainController" where
  "observer_clear s = s\<lparr>watched := []\<rparr>"

definition addPath :: "MainController \<Rightarrow> string \<Rightarrow> MainController" where
  "addPath s path = s\<lparr>watched := (if path \<in> set (watched s) then watched s else watched s @ [path])\<rparr>"

text \<open>
  \<^verbatim>\<open>FiltersTreeController.showFilters\<close> rebuilds the tree of filters; the tree is not
  among the sources. The controller connects the tree's \<^verbatim>\<open>filterSelectionChanged\<close> to
  \<^verbatim>\<open>_onFilterSelectionChanged\<close>, which applies the filters it is given. What the tree
  signals while it rebuilds is not determined by the sources, so it is a parameter:
  \<open>sel\<close> lists the filter sets the tree signals during the call, in order (none, one or
  several), and each of them is applied.
\<close>

definition onFilterSelectionChanged ::
  "MainController \<Rightarrow> TaskFilter list option \<Rightarrow> MainController" where
  "onFilterSelectionChanged s filters = applyFilters s filters"

definition showFilters :: "MainController \<Rightarrow> TaskFilter list option list \<Rightarrow> MainController" where
  "showFilters s sel = foldl onFilterSelectionChanged s sel"

subsection \<open>save, and what calls it\<close>

text \<open>
  An exception leaves the state as it is at the raise, so every function that can raise
  returns the error, if any, next to the state. With no file name bound, \<^verbatim>\<open>save\<close>
  evaluates \<^verbatim>\<open>self.view\<close> for the save dialog; the class never assigns that attribute,
  so the call raises \<^verbatim>\<open>AttributeError\<close> there, the observer being cleared already.
\<close>

definition save :: "MainController \<Rightarrow> py_error option \<times> MainController" where
  "save s =
     (let s1 = observer_clear s;
          fname = filename (the_file s1);
          ok = True
      in if fname = [] then (Some AttributeError, s1)
         else if ok \<and> fname \<noteq> [] then
           (case File_save s1 fname of
              (Some e, s2) \<Rightarrow> (Some e, s2)
            | (None, s2) \<Rightarrow>
                (let s3 = s2\<lparr>last_open_file := Some fname\<rparr>;
                     s4 = set_modified s3 True;
                     s5 = addPath s4 (filename (the_file s4))
                 in (None, s5)))
         else (None, s1))"

definition auto_save :: "MainController \<Rightarrow> py_error option \<times> MainController" where
  "auto_save s =
     (if (case auto_save_setting s of None \<Rightarrow> 1 | Some v \<Rightarrow> v) \<noteq> 0 then save s
      else (None, s))"

definition onFileUpdated ::
  "MainController \<Rightarrow> TaskFilter list option list \<Rightarrow> py_error option \<times> MainController" where
  "onFileUpdated s sel =
     (let s1 = showFilters s sel;
          s2 = set_modified s1 True
      in auto_save s2)"

fun archive_loop :: "Task list \<Rightarrow> MainController \<Rightarrow> py_error option \<times> MainController" where
  "archive_loop [] s = (None, s)"
| "archive_loop (task # rest) s =
     (let s1 = saveDoneTask s task
      in case py_remove (tasks (the_file s1)) task of
           None \<Rightarrow> (Some ValueError, s1)
         | Some ts \<Rightarrow> archive_loop rest (s1\<lparr>the_file := (the_file s1)\<lparr>tasks := ts\<rparr>\<rparr>))"

definition archive_all_done_tasks ::
  "MainController \<Rightarrow> TaskFilter list option list \<Rightarrow> py_error option \<times> MainController" where
  "archive_all_done_tasks s sel =
     (let done_tasks = filter is_complete (tasks (the_file s))
      in case archive_loop done_tasks s of
           (Some e, s1) \<Rightarrow> (Some e, s1)
         | (None, s1) \<Rightarrow> onFileUpdated s1 sel)"

subsection \<open>open\<close>

text \<open>
  The method \<^verbatim>\<open>open\<close> is \<open>open_file\<close> here, and the attribute \<^verbatim>\<open>_file\<close> is
  \<open>the_file\<close>: \<open>open\<close> and \<open>file\<close> are keywords of Isabelle. \<^verbatim>\<open>open\<close> catches
  every exception of the load, so it returns a state and no error. \<open>connect_all\<close> is
  its closing loop over the loaded tasks; \<open>sel\<close> is what the filters tree signals when
  \<^verbatim>\<open>_loadFileToUI\<close> has it rebuilt.
\<close>

definition loadFileToUI :: "MainController \<Rightarrow> TaskFilter list option list \<Rightarrow> MainController" where
  "loadFileToUI s sel = showFilters (set_modified s False) sel"

definition connect_all :: "MainController \<Rightarrow> Task list \<Rightarrow> MainController" where
  "connect_all s ts = s\<lparr>connections := connections s @ map task_id ts\<rparr>"

definition open_file ::
  "MainController \<Rightarrow> string \<Rightarrow> TaskFilter list option list \<Rightarrow> MainController" where
  "open_file s path sel =
     (let s1 = observer_clear s
      in case File_load s1 path of
           (Some ex, s2) \<Rightarrow>
             (let currentfile = (case last_open_file s2 of None \<Rightarrow> [] | Some v \<Rightarrow> v)
              in if currentfile = path then showError s2 (CurrentFileNotAvailable path ex)
                 else showError s2 (ErrorOpeningFile path ex))
         | (None, s2) \<Rightarrow>
             (let s3 = loadFileToUI s2 sel;
                  s4 = s3\<lparr>last_open_file := Some path\<rparr>;
                  s5 = addPath s4 (filename (the_file s4))
              in connect_all s5 (tasks (the_file s5))))"

subsection \<open>The start state, edits and outside events\<close>

text \<open>
  \<^verbatim>\<open>__init__\<close>: an empty visible list, both toggles on, an unbound file with no task,
  nothing watched; the settings, the disk and the clock are what they are.
\<close>

definition init ::
  "(string \<Rightarrow> string list option) \<Rightarrow> string list \<Rightarrow> date \<Rightarrow> string option \<Rightarrow> int option
     \<Rightarrow> MainController" where
  "init d ro now lof asv =
     \<lparr> tasksList = [], showCompleted = True, showFuture = True,
       the_file = \<lparr>filename = [], tasks = []\<rparr>,
       modified = False, title = ''QTodoTxt'', searchText = [],
       watched = [], last_open_file = lof, auto_save_setting = asv,
       connections = [], emitted = [FiltersChanged],
       disk = d, readonly = ro, done_file = [], notifications = [],
       next_id = 0, today = now \<rparr>"

text \<open>
  A task's text is edited in place: the one task object, wherever it is listed, gets the
  new text, and its \<^verbatim>\<open>modified\<close> signal calls every slot connected to it, once per
  connection. (Modelled from the spec, section 4.3: the setter is part of
  \<^verbatim>\<open>tasklib.Task\<close>.)
\<close>

definition retext :: "nat \<Rightarrow> string \<Rightarrow> Task \<Rightarrow> Task" where
  "retext ident txt t = (if task_id t = ident then new_Task ident txt else t)"

definition emit_task_modified :: "MainController \<Rightarrow> Task \<Rightarrow> MainController" where
  "emit_task_modified s task =
     ((\<lambda>s'. taskModified s' task) ^^ count_list (connections s) (task_id task)) s"

definition edit_task :: "MainController \<Rightarrow> Task \<Rightarrow> string \<Rightarrow> MainController" where
  "edit_task s task txt =
     emit_task_modified
       (s\<lparr>the_file := (the_file s)\<lparr>tasks := map (retext (task_id task) txt) (tasks (the_file s))\<rparr>,
          tasksList := map (retext (task_id task) txt) (tasksList s)\<rparr>)
       (new_Task (task_id task) txt)"

text \<open>
  The setters. That of \<^verbatim>\<open>searchText\<close> applies the filters and emits its signal. Those
  of \<^verbatim>\<open>showCompleted\<close> and \<^verbatim>\<open>showFuture\<close> assign and then raise:
  \<^verbatim>\<open>showCompletedChanged\<close> is declared without an argument and is emitted with one
  (\<^verbatim>\<open>TypeError\<close>), and \<^verbatim>\<open>_showFutureChanged\<close> is not an attribute of the controller
  (\<^verbatim>\<open>AttributeError\<close>).
\<close>

definition set_searchText :: "MainController \<Rightarrow> string \<Rightarrow> MainController" where
  "set_searchText s txt =
     emit (applyFilters (s\<lparr>searchText := txt\<rparr>) None) (SearchTextChanged txt)"

definition set_showCompleted :: "MainController \<Rightarrow> bool \<Rightarrow> py_error option \<times> MainController" where
  "set_showCompleted s val = (Some TypeError, s\<lparr>showCompleted := val\<rparr>)"

definition set_showFuture :: "MainController \<Rightarrow> bool \<Rightarrow> py_error option \<times> MainController" where
  "set_showFuture s val = (Some AttributeError, s\<lparr>showFuture := val\<rparr>)"

text \<open>
  Another program writing a file is \<open>write_disk\<close>. The delivery of a file-changed event
  calls \<^verbatim>\<open>open\<close> on its path (\<^verbatim>\<open>fileChangetSig\<close> is connected to \<^verbatim>\<open>open\<close>).
\<close>

definition deliver :: "MainController \<Rightarrow> TaskFilter list option list \<Rightarrow> MainController" where
  "deliver s sel =
     (case notifications s of
        [] \<Rightarrow> s
      | path # rest \<Rightarrow> open_file (s\<lparr>notifications := rest\<rparr>) path sel)"

datatype action =
    NewTask string "int option"
  | DeleteTask task_ref
  | ApplyFilters "TaskFilter list option"
  | Archive "TaskFilter list option list"
  | Save
  | Open string "TaskFilter list option list"
  | EditTask Task string
  | SetSearchText string
  | SetShowCompleted bool
  | SetShowFuture bool
  | OutsideWrite string "string list"
  | Deliver "TaskFilter list option list"

fun step :: "MainController \<Rightarrow> action \<Rightarrow> MainController" where
  "step s (NewTask txt after) = snd (newTask s txt after)"
| "step s (DeleteTask r) = snd (deleteTask s r)"
| "step s (ApplyFilters fs) = applyFilters s fs"
| "step s (Archive sel) = snd (archive_all_done_tasks s sel)"
| "step s Save = snd (save s)"
| "step s (Open path sel) = open_file s path sel"
| "step s (EditTask t txt) = edit_task s t txt"
| "step s (SetSearchText txt) = set_searchText s txt"
| "step s (SetShowCompleted b) = snd (set_showCompleted s b)"
| "step s (SetShowFuture b) = snd (set_showFuture s b)"
| "step s (OutsideWrite path ls) = write_disk s path ls"
| "step s (Deliver sel) = deliver s sel"

definition run :: "MainController \<Rightarrow> action list \<Rightarrow> MainController" where
  "run s acts = foldl step s acts"

section \<open>The filter passes as the spec words them\<close>

text \<open>
  Section 4.2 of the spec lists four passes, each working on the result of the one
  before: (1) the tree-selected filter set, (2) a text search if a search string is
  active, (3) the exclusion of future tasks if they are hidden, (4) the incomplete tasks
  only, if completed tasks are hidden and the filter set does not itself select the
  completed ones.
\<close>

definition selects_completed :: "TaskFilter list option \<Rightarrow> bool" where
  "selects_completed filters =
     (case filters of None \<Rightarrow> False | Some fs \<Rightarrow> CompleteTasksFilter \<in> set fs)"

definition pass_tree :: "date \<Rightarrow> TaskFilter list option \<Rightarrow> Task list \<Rightarrow> Task list" where
  "pass_tree now filters ts = filterTasks now filters ts"

definition pass_search :: "date \<Rightarrow> string \<Rightarrow> Task list \<Rightarrow> Task list" where
  "pass_search now txt ts =
     (if txt = [] then ts else filter (isMatch now (SimpleTextFilter txt)) ts)"

definition pass_future :: "date \<Rightarrow> bool \<Rightarrow> Task list \<Rightarrow> Task list" where
  "pass_future now show_future ts =
     (if show_future then ts else filter (isMatch now FutureFilter) ts)"

definition pass_incomplete ::
  "bool \<Rightarrow> TaskFilter list option \<Rightarrow> Task list \<Rightarrow> Task list" where
  "pass_incomplete show_completed filters ts =
     (if \<not> show_completed \<and> \<not> selects_completed filters
      then filter (\<lambda>t. \<not> is_complete t) ts else ts)"

definition four_passes ::
  "date \<Rightarrow> TaskFilter list option \<Rightarrow> string \<Rightarrow> bool \<Rightarrow> bool \<Rightarrow> Task list \<Rightarrow> Task list" where
  "four_passes now filters txt show_future show_completed ts =
     pass_incomplete show_completed filters
       (pass_future now show_future
          (pass_search now txt
             (pass_tree now filters ts)))"

section \<open>The wiring invariant\<close>

text \<open>
  Every task listed in the file or in the visible list has exactly one connection, and no
  connection belongs to a task object that does not exist yet.
\<close>

definition wired_once :: "MainController \<Rightarrow> bool" where
  "wired_once s =
     ((\<forall>t \<in> set (tasks (the_file s)) \<union> set (tasksList s).
          count_list (connections s) (task_id t) = 1)
      \<and> (\<forall>i \<in> set (connections s). i < next_id s))"

section \<open>Example sessions\<close>

definition t_report :: Task where
  "t_report = new_Task 0 ''(A) Write report +work''"

definition t_rent :: Task where
  "t_rent = new_Task 1 ''x 2023-02-01 pay rent''"

definition t_call :: Task where
  "t_call = new_Task 2 ''call mum''"

definition t_absent :: Task where
  "t_absent = new_Task 7 ''never added''"

definition ex_disk :: "string \<Rightarrow> string list option" where
  "ex_disk = (\<lambda>p. None)(''todo.txt'' \<mapsto>
                [''(A) Write report +work'', ''x 2023-02-01 pay rent'', ''call mum''])"

definition ex_init :: MainController where
  "ex_init = init ex_disk [] (2023, 1, 5) None None"

text \<open>\<open>ex_bound\<close>: \<^verbatim>\<open>todo.txt\<close> has been opened and every task is shown.\<close>

definition ex_bound :: MainController where
  "ex_bound = run ex_init [Open ''todo.txt'' [], ApplyFilters None]"

text \<open>\<open>ex_hidden\<close>: the same, with completed tasks hidden.\<close>

definition ex_hidden :: MainController where
  "ex_hidden = run ex_bound [SetShowCompleted False, ApplyFilters None]"

text \<open>\<open>ex_searching\<close>: the same as \<open>ex_bound\<close>, with a search for \<^verbatim>\<open>report\<close>.\<close>

definition ex_searching :: MainController where
  "ex_searching = run ex_bound [SetSearchText ''report'']"

section \<open>Basic facts\<close>


lemma filterTasks_Some: "filterTasks now (Some fs) ts = filter (\<lambda>t. list_all (\<lambda>f. isMatch now f t) fs) ts"
  by (simp add: filterTasks_def)

lemma filterTasks_subset: "set (filterTasks now filters ts) \<subseteq> set ts"
  by (cases filters) (auto simp: filterTasks_def)

lemma emit_fields [simp]:
  "tasksList (emit s g) = tasksList s"
  "showCompleted (emit s g) = showCompleted s"
  "showFuture (emit s g) = showFuture s"
  "the_file (emit s g) = the_file s"
  "modified (emit s g) = modified s"
  "title (emit s g) = title s"
  "searchText (emit s g) = searchText s"
  "watched (emit s g) = watched s"
  "last_open_file (emit s g) = last_open_file s"
  "auto_save_setting (emit s g) = auto_save_setting s"
  "connections (emit s g) = connections s"
  "emitted (emit s g) = emitted s @ [g]"
  "disk (emit s g) = disk s"
  "readonly (emit s g) = readonly s"
  "done_file (emit s g) = done_file s"
  "notifications (emit s g) = notifications s"
  "next_id (emit s g) = next_id s"
  "today (emit s g) = today s"
  by (simp_all add: emit_def)

lemma set_modified_fields [simp]:
  "tasksList (set_modified s v) = tasksList s"
  "showCompleted (set_modified s v) = showCompleted s"
  "showFuture (set_modified s v) = showFuture s"
  "the_file (set_modified s v) = the_file s"
  "modified (set_modified s v) = v"
  "searchText (set_modified s v) = searchText s"
  "watched (set_modified s v) = watched s"
  "last_open_file (set_modified s v) = last_open_file s"
  "auto_save_setting (set_modified s v) = auto_save_setting s"
  "connections (set_modified s v) = connections s"
  "disk (set_modified s v) = disk s"
  "readonly (set_modified s v) = readonly s"
  "done_file (set_modified s v) = done_file s"
  "notifications (set_modified s v) = notifications s"
  "next_id (set_modified s v) = next_id s"
  "today (set_modified s v) = today s"
  by (simp_all add: set_modified_def updateTitle_def Let_def)

lemma applyFilters_fields [simp]:
  "showCompleted (applyFilters s fs) = showCompleted s"
  "showFuture (applyFilters s fs) = showFuture s"
  "the_file (applyFilters s fs) = the_file s"
  "modified (applyFilters s fs) = modified s"
  "title (applyFilters s fs) = title s"
  "searchText (applyFilters s fs) = searchText s"
  "watched (applyFilters s fs) = watched s"
  "last_open_file (applyFilters s fs) = last_open_file s"
  "auto_save_setting (applyFilters s fs) = auto_save_setting s"
  "connections (applyFilters s fs) = connections s"
  "emitted (applyFilters s fs) = emitted s @ [TaskListChanged]"
  "disk (applyFilters s fs) = disk s"
  "readonly (applyFilters s fs) = readonly s"
  "done_file (applyFilters s fs) = done_file s"
  "notifications (applyFilters s fs) = notifications s"
  "next_id (applyFilters s fs) = next_id s"
  "today (applyFilters s fs) = today s"
  by (simp_all add: applyFilters_def Let_def)

lemma py_falsy_in: "(py_falsy filters \<or> \<not> py_in CompleteTasksFilter filters) = (\<not> selects_completed filters)"
  by (cases filters) (auto simp: py_falsy_def py_in_def selects_completed_def)

lemma filterTasks_single: "filterTasks now (Some [f]) ts = filter (isMatch now f) ts"
  by (simp add: filterTasks_def)

lemma filter_incomplete:
  "filter (isMatch now IncompleteTasksFilter) ts = filter (\<lambda>t. \<not> is_complete t) ts"
  by (induction ts) simp_all

lemma tasksList_applyFilters:
  "tasksList (applyFilters s filters) =
     four_passes (today s) filters (searchText s) (showFuture s) (showCompleted s)
       (tasks (the_file s))"
  by (simp add: applyFilters_def Let_def py_falsy_in four_passes_def pass_tree_def
      pass_search_def pass_future_def pass_incomplete_def filterTasks_single filter_incomplete
      del: isMatch.simps)

lemma tasksList_applyFilters_subset:
  "set (tasksList (applyFilters s filters)) \<subseteq> set (tasks (the_file s))"
proof -
  have "set (pass_tree (today s) filters (tasks (the_file s))) \<subseteq> set (tasks (the_file s))"
    by (simp add: pass_tree_def filterTasks_subset)
  then show ?thesis
    by (auto simp: tasksList_applyFilters four_passes_def pass_search_def pass_future_def
        pass_incomplete_def)
qed

lemma py_remove_absent: "x \<notin> set xs \<Longrightarrow> py_remove xs x = None"
  by (simp add: py_remove_def)

lemma py_insert_overflow: "i < ssize_min \<or> ssize_max < i \<Longrightarrow> py_insert xs i x = None"
  by (auto simp: py_insert_def)

lemma py_insert_None: "py_insert xs i x = None \<Longrightarrow> i < ssize_min \<or> ssize_max < i"
  by (auto simp: py_insert_def Let_def split: if_splits)

lemma py_insert_inside:
  "0 \<le> i \<Longrightarrow> i \<le> int (length xs) \<Longrightarrow> i \<le> ssize_max \<Longrightarrow>
     py_insert xs i x = Some (take (nat i) xs @ [x] @ drop (nat i) xs)"
  by (simp add: py_insert_def Let_def min_def ssize_min_def)

lemma py_insert_beyond:
  "int (length xs) \<le> i \<Longrightarrow> i \<le> ssize_max \<Longrightarrow> py_insert xs i x = Some (xs @ [x])"
  by (simp add: py_insert_def Let_def min_def ssize_min_def)

lemma py_insert_negative:
  "i < 0 \<Longrightarrow> ssize_min \<le> i \<Longrightarrow>
     py_insert xs i x
       = Some (take (nat (int (length xs) + i)) xs @ [x] @ drop (nat (int (length xs) + i)) xs)"
  by (simp add: py_insert_def Let_def max_def ssize_max_def)

lemma set_py_insert: "py_insert xs i x = Some ys \<Longrightarrow> set ys = insert x (set xs)"
proof -
  assume some: "py_insert xs i x = Some ys"
  have "set (take k xs) \<union> set (drop k xs) = set xs" for k
    by (metis append_take_drop_id set_append)
  then show ?thesis
    using some by (auto simp: py_insert_def Let_def split: if_splits)
qed

lemma save_keeps:
  "tasks (the_file (snd (save s))) = tasks (the_file s)"
  "tasksList (snd (save s)) = tasksList s"
  "done_file (snd (save s)) = done_file s"
  "connections (snd (save s)) = connections s"
  "next_id (snd (save s)) = next_id s"
  "notifications (snd (save s)) = notifications s"
  "searchText (snd (save s)) = searchText s"
  "today (snd (save s)) = today s"
  by (auto simp: save_def File_save_def write_disk_def observer_clear_def addPath_def Let_def
      split: prod.splits if_splits)


lemma auto_save_keeps:
  "tasks (the_file (snd (auto_save s))) = tasks (the_file s)"
  "tasksList (snd (auto_save s)) = tasksList s"
  "done_file (snd (auto_save s)) = done_file s"
  "connections (snd (auto_save s)) = connections s"
  "next_id (snd (auto_save s)) = next_id s"
  "notifications (snd (auto_save s)) = notifications s"
  by (simp_all add: auto_save_def save_keeps)

lemma showFilters_snoc:
  "showFilters s (sel @ [fs]) = applyFilters (showFilters s sel) fs"
  by (simp add: showFilters_def onFilterSelectionChanged_def)

lemma showFilters_keeps:
  "the_file (showFilters s sel) = the_file s"
  "connections (showFilters s sel) = connections s"
  "next_id (showFilters s sel) = next_id s"
  "modified (showFilters s sel) = modified s"
  "done_file (showFilters s sel) = done_file s"
  "notifications (showFilters s sel) = notifications s"
  "searchText (showFilters s sel) = searchText s"
  "showFuture (showFilters s sel) = showFuture s"
  "showCompleted (showFilters s sel) = showCompleted s"
  "today (showFilters s sel) = today s"
  "watched (showFilters s sel) = watched s"
  "last_open_file (showFilters s sel) = last_open_file s"
  by (induction sel rule: rev_induct) (simp_all add: showFilters_snoc, simp_all add: showFilters_def)

lemma showFilters_tasksList:
  "tasksList (showFilters s sel) =
     (if sel = [] then tasksList s
      else four_passes (today s) (last sel) (searchText s) (showFuture s) (showCompleted s)
             (tasks (the_file s)))"
proof (cases sel rule: rev_cases)
  case Nil
  then show ?thesis by (simp add: showFilters_def)
next
  case (snoc sel' fs)
  then show ?thesis
    by (simp add: showFilters_snoc tasksList_applyFilters showFilters_keeps)
qed

lemma four_passes_subset: "set (four_passes now filters q sf sc ts) \<subseteq> set ts"
proof -
  have "set (pass_tree now filters ts) \<subseteq> set ts"
    by (simp add: pass_tree_def filterTasks_subset)
  then show ?thesis
    by (auto simp: four_passes_def pass_search_def pass_future_def pass_incomplete_def)
qed

lemma showFilters_tasksList_subset:
  "set (tasksList (showFilters s sel)) \<subseteq> set (tasksList s) \<union> set (tasks (the_file s))"
  using four_passes_subset [of "today s" "last sel" "searchText s" "showFuture s" "showCompleted s"
      "tasks (the_file s)"]
  by (auto simp: showFilters_tasksList)

lemma onFileUpdated_keeps:
  "tasks (the_file (snd (onFileUpdated s sel))) = tasks (the_file s)"
  "tasksList (snd (onFileUpdated s sel)) = tasksList (showFilters s sel)"
  "done_file (snd (onFileUpdated s sel)) = done_file s"
  "connections (snd (onFileUpdated s sel)) = connections s"
  "next_id (snd (onFileUpdated s sel)) = next_id s"
  "notifications (snd (onFileUpdated s sel)) = notifications s"
  by (simp_all add: onFileUpdated_def Let_def auto_save_keeps showFilters_keeps)


lemma onFileUpdated_no_ValueError: "fst (onFileUpdated s sel) \<noteq> Some ValueError"
  by (auto simp: onFileUpdated_def auto_save_def save_def File_save_def Let_def
      split: prod.splits if_splits)

lemma remove1_first:
  "filter P ys = d # ds \<Longrightarrow>
     d \<in> set ys \<and> filter P (remove1 d ys) = ds
     \<and> filter (\<lambda>x. \<not> P x) (remove1 d ys) = filter (\<lambda>x. \<not> P x) ys"
proof (induction ys)
  case Nil
  then show ?case by simp
next
  case (Cons y ys)
  show ?case
  proof (cases "P y")
    case True
    with Cons.prems have "y = d" "filter P ys = ds" by simp_all
    then show ?thesis using True by simp
  next
    case False
    with Cons.prems have rest: "filter P ys = d # ds" by simp
    have "P d"
      using rest by (metis filter_eq_ConsD)
    then have "y \<noteq> d" using False by auto
    then show ?thesis using Cons.IH [OF rest] False by simp
  qed
qed

lemma archive_loop_result:
  "filter is_complete (tasks (the_file s)) = ds \<Longrightarrow>
     archive_loop ds s =
       (None, s\<lparr>the_file := (the_file s)\<lparr>tasks := filter (\<lambda>t. \<not> is_complete t) (tasks (the_file s))\<rparr>,
                done_file := done_file s @ map serialize ds\<rparr>)"
proof (induction ds arbitrary: s)
  case Nil
  have "filter (\<lambda>t. \<not> is_complete t) (tasks (the_file s)) = tasks (the_file s)"
    using Nil by (simp add: filter_empty_conv)
  then show ?case by simp
next
  case (Cons d ds)
  let ?s1 = "saveDoneTask s d"
  let ?s2 = "?s1\<lparr>the_file := (the_file ?s1)\<lparr>tasks := remove1 d (tasks (the_file ?s1))\<rparr>\<rparr>"
  have tasks1: "tasks (the_file ?s1) = tasks (the_file s)"
    by (simp add: saveDoneTask_def)
  note first = remove1_first [OF Cons.prems]
  have mem: "py_remove (tasks (the_file ?s1)) d = Some (remove1 d (tasks (the_file s)))"
    using first by (simp add: py_remove_def tasks1)
  have step: "archive_loop (d # ds) s = archive_loop ds ?s2"
    using mem by (simp add: Let_def tasks1)
  have "filter is_complete (tasks (the_file ?s2)) = ds"
    using first by (simp add: saveDoneTask_def)
  from Cons.IH [OF this] show ?case
    unfolding step using first by (simp add: saveDoneTask_def)
qed

lemma newTask_appends:
  "tasks (the_file (snd (newTask s txt after))) = tasks (the_file s) @ [new_Task (next_id s) txt]"
  "connections (snd (newTask s txt after)) = connections s @ [next_id s]"
  "next_id (snd (newTask s txt after)) = Suc (next_id s)"
  "searchText (snd (newTask s txt after)) = searchText s"
  "showFuture (snd (newTask s txt after)) = showFuture s"
  "showCompleted (snd (newTask s txt after)) = showCompleted s"
  "today (snd (newTask s txt after)) = today s"
  by (simp_all add: newTask_def Let_def new_Task_def split: option.splits)

lemma newTask_inserted:
  assumes "py_insert (tasksList s)
             (case after of None \<Rightarrow> int (length (tasksList s)) | Some a \<Rightarrow> a + 1)
             (new_Task (next_id s) txt) = Some visible"
  shows "fst (newTask s txt after)
           = Inr (case after of None \<Rightarrow> int (length (tasksList s)) | Some a \<Rightarrow> a + 1)"
    and "tasksList (snd (newTask s txt after)) = visible"
    and "modified (snd (newTask s txt after))"
    and "last (emitted (snd (newTask s txt after))) = TaskListChanged"
  using assms by (simp_all add: newTask_def Let_def split: option.splits)

lemma newTask_overflow:
  assumes "py_insert (tasksList s)
             (case after of None \<Rightarrow> int (length (tasksList s)) | Some a \<Rightarrow> a + 1)
             (new_Task (next_id s) txt) = None"
  shows "newTask s txt after =
           (Inl OverflowError,
            s\<lparr>next_id := Suc (next_id s),
              connections := connections s @ [next_id s],
              the_file := (the_file s)\<lparr>tasks := tasks (the_file s) @ [new_Task (next_id s) txt]\<rparr>\<rparr>)"
  using assms by (simp add: newTask_def Let_def new_Task_def split: option.splits)

lemma newTask_tasksList_subset:
  "set (tasksList (snd (newTask s txt after)))
     \<subseteq> insert (new_Task (next_id s) txt) (set (tasksList s))"
proof (cases "py_insert (tasksList s)
             (case after of None \<Rightarrow> int (length (tasksList s)) | Some a \<Rightarrow> a + 1)
             (new_Task (next_id s) txt)")
  case None
  show ?thesis
    unfolding newTask_overflow [OF None] by auto
next
  case (Some visible)
  show ?thesis
    unfolding newTask_inserted(2) [OF Some] using set_py_insert [OF Some] by simp
qed

lemma deleteTask_ok:
  "fst (deleteTask s r) = None \<Longrightarrow>
     \<exists>task. task \<in> set (tasks (the_file s))
       \<and> snd (deleteTask s r)
           = applyFilters (set_modified (s\<lparr>the_file := (the_file s)\<lparr>tasks := remove1 task (tasks (the_file s))\<rparr>\<rparr>) True) None"
  by (auto simp: deleteTask_def py_remove_def Let_def split: option.splits task_ref.splits if_splits)

lemma wired_once_kept:
  assumes "wired_once s"
    and "connections s' = connections s" and "next_id s' = next_id s"
    and "task_id ` (set (tasks (the_file s')) \<union> set (tasksList s'))
           \<subseteq> task_id ` (set (tasks (the_file s)) \<union> set (tasksList s))"
  shows "wired_once s'"
  unfolding wired_once_def
proof (intro conjI ballI)
  fix t assume "t \<in> set (tasks (the_file s')) \<union> set (tasksList s')"
  then have "task_id t \<in> task_id ` (set (tasks (the_file s)) \<union> set (tasksList s))"
    using assms(4) by blast
  then obtain u where "u \<in> set (tasks (the_file s)) \<union> set (tasksList s)" "task_id t = task_id u"
    by blast
  then show "count_list (connections s') (task_id t) = 1"
    using assms(1,2) unfolding wired_once_def by metis
next
  fix i assume "i \<in> set (connections s')"
  then show "i < next_id s'"
    using assms(1,2,3) by (simp add: wired_once_def)
qed

lemma count_list_fresh: "\<forall>i \<in> set xs. i < (n::nat) \<Longrightarrow> count_list xs n = 0"
  by (induction xs) auto

lemma count_list_distinct: "distinct xs \<Longrightarrow> count_list xs x = (if x \<in> set xs then 1 else 0)"
  by (induction xs) auto

lemma task_id_new_Task [simp]: "task_id (new_Task i txt) = i"
  by (simp add: new_Task_def)

lemma task_ids_of_lines: "map task_id (tasks_of_lines n ls) = [n ..< n + length ls]"
proof (induction ls arbitrary: n)
  case Nil
  then show ?case by simp
next
  case (Cons l ls)
  have "[n ..< n + length (l # ls)] = n # [Suc n ..< Suc n + length ls]"
    using upt_conv_Cons [of n "n + length (l # ls)"] by simp
  then show ?case
    using Cons.IH [of "Suc n"] by simp
qed

lemma wired_once_init: "wired_once (init d ro now lof asv)"
  by (simp add: wired_once_def init_def)

lemma wired_once_applyFilters:
  assumes "wired_once s"
  shows "wired_once (applyFilters s fs)"
  by (rule wired_once_kept [OF assms]) (use tasksList_applyFilters_subset [of s fs] in auto)

lemma wired_once_set_modified:
  assumes "wired_once s"
  shows "wired_once (set_modified s v)"
  by (rule wired_once_kept [OF assms]) auto

lemma wired_once_newTask: "wired_once s \<Longrightarrow> wired_once (snd (newTask s txt after))"
proof -
  assume w: "wired_once s"
  let ?s' = "snd (newTask s txt after)"
  have fresh: "count_list (connections s) (next_id s) = 0"
    using w by (simp add: wired_once_def count_list_fresh)
  have old: "task_id t \<noteq> next_id s"
    if "t \<in> set (tasks (the_file s)) \<union> set (tasksList s)" for t
  proof
    assume "task_id t = next_id s"
    moreover have "count_list (connections s) (task_id t) = 1"
      using w that unfolding wired_once_def by blast
    ultimately show False using fresh by simp
  qed
  show ?thesis
    unfolding wired_once_def
  proof (intro conjI ballI)
    fix t assume "t \<in> set (tasks (the_file ?s')) \<union> set (tasksList ?s')"
    then have "t = new_Task (next_id s) txt \<or> t \<in> set (tasks (the_file s)) \<union> set (tasksList s)"
      using newTask_tasksList_subset [of s "txt" after] by (auto simp: newTask_appends)
    then show "count_list (connections ?s') (task_id t) = 1"
    proof
      assume "t = new_Task (next_id s) txt"
      then show ?thesis using fresh by (simp add: newTask_appends)
    next
      assume t: "t \<in> set (tasks (the_file s)) \<union> set (tasksList s)"
      then have "count_list (connections s) (task_id t) = 1"
        using w unfolding wired_once_def by blast
      then show ?thesis using old [OF t] by (simp add: newTask_appends)
    qed
  next
    fix i assume "i \<in> set (connections ?s')"
    then show "i < next_id ?s'"
      using w by (auto simp: newTask_appends wired_once_def less_Suc_eq)
  qed
qed

lemma wired_once_deleteTask: "wired_once s \<Longrightarrow> wired_once (snd (deleteTask s r))"
proof -
  assume w: "wired_once s"
  show ?thesis
  proof (cases "fst (deleteTask s r) = None")
    case True
    from deleteTask_ok [OF True] obtain task where
      eq: "snd (deleteTask s r)
           = applyFilters (set_modified (s\<lparr>the_file := (the_file s)\<lparr>tasks := remove1 task (tasks (the_file s))\<rparr>\<rparr>) True) None"
      by blast
    have "wired_once (s\<lparr>the_file := (the_file s)\<lparr>tasks := remove1 task (tasks (the_file s))\<rparr>\<rparr>)"
      by (rule wired_once_kept [OF w])
        (use set_remove1_subset [of task "tasks (the_file s)"] in auto)
    then show ?thesis
      unfolding eq by (simp add: wired_once_applyFilters wired_once_set_modified)
  next
    case False
    then have "snd (deleteTask s r) = s"
      by (auto simp: deleteTask_def Let_def split: option.splits)
    then show ?thesis using w by simp
  qed
qed

lemma wired_once_showFilters:
  assumes "wired_once s"
  shows "wired_once (showFilters s sel)"
  by (rule wired_once_kept [OF assms])
    (use showFilters_tasksList_subset [of s sel] in \<open>auto simp: showFilters_keeps\<close>)

lemma wired_once_save:
  assumes "wired_once s"
  shows "wired_once (snd (save s))"
  by (rule wired_once_kept [OF assms]) (auto simp: save_keeps)

lemma wired_once_onFileUpdated:
  assumes "wired_once s"
  shows "wired_once (snd (onFileUpdated s sel))"
  by (rule wired_once_kept [OF wired_once_showFilters [OF assms, of sel]])
    (auto simp: onFileUpdated_keeps showFilters_keeps)

lemma archive_run:
  "archive_all_done_tasks s sel =
     onFileUpdated
       (s\<lparr>the_file := (the_file s)\<lparr>tasks := filter (\<lambda>t. \<not> is_complete t) (tasks (the_file s))\<rparr>,
          done_file := done_file s @ map serialize (filter is_complete (tasks (the_file s)))\<rparr>)
       sel"
proof -
  have "archive_loop (filter is_complete (tasks (the_file s))) s
          = (None, s\<lparr>the_file := (the_file s)\<lparr>tasks := filter (\<lambda>t. \<not> is_complete t) (tasks (the_file s))\<rparr>,
                    done_file := done_file s @ map serialize (filter is_complete (tasks (the_file s)))\<rparr>)"
    by (rule archive_loop_result) simp
  then show ?thesis
    by (simp add: archive_all_done_tasks_def)
qed

lemma wired_once_archive:
  assumes "wired_once s"
  shows "wired_once (snd (archive_all_done_tasks s sel))"
proof -
  have "wired_once
          (s\<lparr>the_file := (the_file s)\<lparr>tasks := filter (\<lambda>t. \<not> is_complete t) (tasks (the_file s))\<rparr>,
             done_file := done_file s @ map serialize (filter is_complete (tasks (the_file s)))\<rparr>)"
    by (rule wired_once_kept [OF assms]) auto
  then show ?thesis
    unfolding archive_run by (rule wired_once_onFileUpdated)
qed

lemma open_file_failed:
  "disk s path = None \<Longrightarrow>
     open_file s path sel =
       s\<lparr>watched := [],
         emitted := emitted s @
           [ErrorSignal
              (if (case last_open_file s of None \<Rightarrow> [] | Some v \<Rightarrow> v) = path
               then CurrentFileNotAvailable path ErrorLoadingFile
               else ErrorOpeningFile path ErrorLoadingFile)]\<rparr>"
  by (simp add: open_file_def observer_clear_def File_load_def showError_def emit_def Let_def)

lemma open_file_loaded:
  "disk s path = Some ls \<Longrightarrow>
     tasks (the_file (open_file s path sel)) = tasks_of_lines (next_id s) (strip_trailing_blank ls)
     \<and> set (tasksList (open_file s path sel))
         \<subseteq> set (tasksList s) \<union> set (tasks (the_file (open_file s path sel)))
     \<and> connections (open_file s path sel)
         = connections s @ [next_id s ..< next_id s + length (strip_trailing_blank ls)]
     \<and> next_id (open_file s path sel) = next_id s + length (strip_trailing_blank ls)"
proof -
  assume readable: "disk s path = Some ls"
  let ?s2 = "(observer_clear s)\<lparr>the_file := \<lparr>filename = path,
                 tasks = tasks_of_lines (next_id s) (strip_trailing_blank ls)\<rparr>,
               next_id := next_id s + length (strip_trailing_blank ls)\<rparr>"
  let ?s3 = "showFilters (set_modified ?s2 False) sel"
  have eq: "open_file s path sel =
              connect_all (addPath (?s3\<lparr>last_open_file := Some path\<rparr>) path) (tasks (the_file ?s3))"
    using readable
    by (simp add: open_file_def File_load_def loadFileToUI_def Let_def observer_clear_def
        showFilters_keeps addPath_def)
  have vis: "set (tasksList ?s3)
               \<subseteq> set (tasksList s) \<union> set (tasks_of_lines (next_id s) (strip_trailing_blank ls))"
    using showFilters_tasksList_subset [of "set_modified ?s2 False" sel]
    by (simp add: observer_clear_def)
  show ?thesis
    unfolding eq using vis
    by (simp add: connect_all_def addPath_def showFilters_keeps observer_clear_def
        task_ids_of_lines)
qed

lemma wired_once_open_file: "wired_once s \<Longrightarrow> wired_once (open_file s path sel)"
proof -
  assume w: "wired_once s"
  show ?thesis
  proof (cases "disk s path")
    case None
    show ?thesis
      unfolding open_file_failed [OF None] by (rule wired_once_kept [OF w]) auto
  next
    case (Some ls)
    let ?n = "next_id s"
    let ?k = "length (strip_trailing_blank ls)"
    let ?s' = "open_file s path sel"
    note loaded = open_file_loaded [OF Some, of sel]
    have below: "\<forall>i \<in> set (connections s). i < ?n"
      using w by (simp add: wired_once_def)
    have cnt: "count_list (connections ?s') i
                 = count_list (connections s) i + (if ?n \<le> i \<and> i < ?n + ?k then 1 else 0)" for i
      using loaded by (simp add: count_list_distinct)
    have new_ids: "set (map task_id (tasks (the_file ?s'))) = {?n ..< ?n + ?k}"
      using loaded by (simp add: task_ids_of_lines)
    show ?thesis
      unfolding wired_once_def
    proof (intro conjI ballI)
      fix t assume "t \<in> set (tasks (the_file ?s')) \<union> set (tasksList ?s')"
      then consider "t \<in> set (tasks (the_file ?s'))" | "t \<in> set (tasksList s)"
        using loaded by auto
      then show "count_list (connections ?s') (task_id t) = 1"
      proof cases
        case 1
        then have "task_id t \<in> {?n ..< ?n + ?k}"
          using new_ids by (metis image_eqI set_map)
        moreover from this have "count_list (connections s) (task_id t) = 0"
          using below by (auto simp: count_list_0_iff)
        ultimately show ?thesis
          by (simp add: cnt)
      next
        case 2
        then have one: "count_list (connections s) (task_id t) = 1"
          using w unfolding wired_once_def by blast
        then have "task_id t \<in> set (connections s)"
          by (metis count_list_0_iff zero_neq_one)
        then have "task_id t < ?n"
          using below by blast
        then show ?thesis
          using one by (simp add: cnt)
      qed
    next
      fix i assume "i \<in> set (connections ?s')"
      then show "i < next_id ?s'"
        using loaded below by auto
    qed
  qed
qed

lemma emit_task_modified_keeps:
  "tasks (the_file (emit_task_modified s t)) = tasks (the_file s)"
  "tasksList (emit_task_modified s t) = tasksList s"
  "connections (emit_task_modified s t) = connections s"
  "next_id (emit_task_modified s t) = next_id s"
proof -
  have "tasks (the_file (((\<lambda>s'. taskModified s' t) ^^ k) s)) = tasks (the_file s)
        \<and> tasksList (((\<lambda>s'. taskModified s' t) ^^ k) s) = tasksList s
        \<and> connections (((\<lambda>s'. taskModified s' t) ^^ k) s) = connections s
        \<and> next_id (((\<lambda>s'. taskModified s' t) ^^ k) s) = next_id s" for k
    by (induction k) (simp_all add: taskModified_def)
  then show "tasks (the_file (emit_task_modified s t)) = tasks (the_file s)"
    "tasksList (emit_task_modified s t) = tasksList s"
    "connections (emit_task_modified s t) = connections s"
    "next_id (emit_task_modified s t) = next_id s"
    by (simp_all add: emit_task_modified_def)
qed

lemma task_id_retext [simp]: "task_id (retext i txt t) = task_id t"
  by (simp add: retext_def)

lemma wired_once_edit_task:
  assumes "wired_once s"
  shows "wired_once (edit_task s t txt)"
  by (rule wired_once_kept [OF assms])
    (auto simp: edit_task_def emit_task_modified_keeps image_Un image_image)

lemma wired_once_step: "wired_once s \<Longrightarrow> wired_once (step s a)"
proof (cases a)
  case (SetSearchText query)
  assume w: "wired_once s"
  have "wired_once (s\<lparr>searchText := query\<rparr>)"
    by (rule wired_once_kept [OF w]) auto
  then have "wired_once (applyFilters (s\<lparr>searchText := query\<rparr>) None)"
    by (rule wired_once_applyFilters)
  then show ?thesis
    unfolding SetSearchText step.simps set_searchText_def
    by (rule wired_once_kept) auto
next
  case (SetShowCompleted b)
  assume w: "wired_once s"
  show ?thesis
    unfolding SetShowCompleted by (rule wired_once_kept [OF w]) (auto simp: set_showCompleted_def)
next
  case (SetShowFuture b)
  assume w: "wired_once s"
  show ?thesis
    unfolding SetShowFuture by (rule wired_once_kept [OF w]) (auto simp: set_showFuture_def)
next
  case (OutsideWrite path ls)
  assume w: "wired_once s"
  show ?thesis
    unfolding OutsideWrite by (rule wired_once_kept [OF w]) (auto simp: write_disk_def)
next
  case (Deliver sel)
  assume w: "wired_once s"
  show ?thesis
  proof (cases "notifications s")
    case Nil
    then show ?thesis using w by (simp add: Deliver deliver_def)
  next
    case (Cons path rest)
    have "wired_once (s\<lparr>notifications := rest\<rparr>)"
      by (rule wired_once_kept [OF w]) auto
    then show ?thesis
      by (simp add: Deliver deliver_def Cons wired_once_open_file)
  qed
qed (simp_all add: wired_once_newTask wired_once_deleteTask wired_once_applyFilters
      wired_once_archive wired_once_save wired_once_open_file wired_once_edit_task)

lemma wired_once_run: "wired_once s \<Longrightarrow> wired_once (run s acts)"
  unfolding run_def by (induction acts arbitrary: s) (simp_all add: wired_once_step)

lemma edit_task_modified:
  "count_list (connections s) (task_id task) = 1 \<Longrightarrow> modified (edit_task s task txt)"
  by (simp add: edit_task_def emit_task_modified_def taskModified_def)

lemmas task_defs = new_Task_def starts_with_def tokens_def due_of_def tagged_def is_space_def
   parse_date_def

lemmas ctl_defs = run_def init_def open_file_def observer_clear_def File_load_def
   strip_trailing_blank_def blank_def loadFileToUI_def showFilters_def
   onFilterSelectionChanged_def set_modified_def
   updateTitle_def emit_def basename_def addPath_def connect_all_def applyFilters_def
   filterTasks_def set_searchText_def set_showCompleted_def lower_char_def py_falsy_def py_in_def Let_def

section \<open>The example sessions, evaluated\<close>

lemma t_report_eq: "t_report = \<lparr>task_id = 0, rawText = ''(A) Write report +work'', is_complete = False, dueDate = None, projects = [''work''], contexts = []\<rparr>"
  by (simp add: t_report_def task_defs)

lemma t_rent_eq: "t_rent = \<lparr>task_id = 1, rawText = ''x 2023-02-01 pay rent'', is_complete = True, dueDate = None, projects = [], contexts = []\<rparr>"
  by (simp add: t_rent_def task_defs)

lemma t_call_eq: "t_call = \<lparr>task_id = 2, rawText = ''call mum'', is_complete = False, dueDate = None, projects = [], contexts = []\<rparr>"
  by (simp add: t_call_def task_defs)

lemma t_absent_eq: "t_absent = \<lparr>task_id = 7, rawText = ''never added'', is_complete = False, dueDate = None, projects = [], contexts = []\<rparr>"
  by (simp add: t_absent_def task_defs)

lemma ex_bound_eq: "ex_bound = \<lparr>tasksList = [t_report, t_rent, t_call], showCompleted = True, showFuture = True, the_file = \<lparr>filename = ''todo.txt'', tasks = [t_report, t_rent, t_call]\<rparr>, modified = False, title = ''QTodoTxt - todo.txt'', searchText = [], watched = [''todo.txt''], last_open_file = Some ''todo.txt'', auto_save_setting = None, connections = [0,1,2], emitted = [FiltersChanged, TitleChanged ''QTodoTxt - todo.txt'', ModifiedChanged False, TaskListChanged], disk = ex_disk, readonly = [], done_file = [], notifications = [], next_id = 3, today = (2023,1,5)\<rparr>"
  by (simp add: ex_bound_def ex_init_def ex_disk_def ctl_defs t_report_eq t_rent_eq t_call_eq task_defs)

lemma ex_hidden_eq: "ex_hidden = ex_bound\<lparr>tasksList := [t_report, t_call], showCompleted := False, emitted := emitted ex_bound @ [TaskListChanged]\<rparr>"
  by (simp add: ex_hidden_def ex_bound_eq ctl_defs t_report_eq t_rent_eq t_call_eq)

lemma ex_searching_eq: "ex_searching = ex_bound\<lparr>tasksList := [t_report], searchText := ''report'', emitted := emitted ex_bound @ [TaskListChanged, SearchTextChanged ''report'']\<rparr>"
  by (simp add: ex_searching_def ex_bound_eq ctl_defs t_report_eq t_rent_eq t_call_eq starts_with_def)

section \<open>The filter passes\<close>

text \<open>
  C2. For every task list, the controller's filter application is the composition of
  exactly four passes, in this order, each working on the result of the one before:
  (1) the tree-selected filter set; (2) the text search, only when the search string is
  not empty; (3) the exclusion of future tasks, only when \<open>showFuture\<close> is false;
  (4) the incomplete tasks only, when \<open>showCompleted\<close> is false and the filter set does
  not contain a \<^verbatim>\<open>CompleteTasksFilter\<close>. The left side is the code of
  \<^verbatim>\<open>_applyFilters\<close>; \<open>pass_tree\<close>, \<open>pass_search\<close>, \<open>pass_future\<close> and
  \<open>pass_incomplete\<close> are the passes as the spec words them.
\<close>

theorem applyFilters_four_passes:
  "tasksList (applyFilters s filters) =
     pass_incomplete (showCompleted s) filters
       (pass_future (today s) (showFuture s)
          (pass_search (today s) (searchText s)
             (pass_tree (today s) filters (tasks (the_file s)))))"
proof -
  let ?now = "today s"
  have p1: "filterTasks ?now filters ts = pass_tree ?now filters ts" for ts
    by (simp add: pass_tree_def)
  have p2: "(if searchText s \<noteq> [] then filterTasks ?now (Some [SimpleTextFilter (searchText s)]) ts
             else ts) = pass_search ?now (searchText s) ts" for ts
    by (simp add: pass_search_def filterTasks_single del: isMatch.simps)
  have p3: "(if \<not> showFuture s then filterTasks ?now (Some [FutureFilter]) ts else ts)
             = pass_future ?now (showFuture s) ts" for ts
    by (simp add: pass_future_def filterTasks_single del: isMatch.simps)
  have p4: "(if \<not> showCompleted s \<and> (py_falsy filters \<or> \<not> py_in CompleteTasksFilter filters)
             then filterTasks ?now (Some [IncompleteTasksFilter]) ts else ts)
             = pass_incomplete (showCompleted s) filters ts" for ts
    unfolding pass_incomplete_def py_falsy_in
    by (simp add: filterTasks_single filter_incomplete del: isMatch.simps)
  have "applyFilters s filters =
          emit (s\<lparr>tasksList :=
                   pass_incomplete (showCompleted s) filters
                     (pass_future ?now (showFuture s)
                        (pass_search ?now (searchText s)
                           (pass_tree ?now filters (tasks (the_file s)))))\<rparr>)
            TaskListChanged"
    by (simp only: applyFilters_def Let_def p2 p3 p4 p1)
  then show ?thesis
    by simp
qed

theorem applyFilters_four_passes_witness:
  "tasksList (applyFilters ex_hidden (Some [ProjectFilter ''work''])) = [t_report]
   \<and> tasksList (applyFilters ex_hidden (Some [CompleteTasksFilter])) = [t_rent]
   \<and> tasksList (applyFilters ex_searching None) = [t_report]"
  using applyFilters_four_passes [of ex_hidden "Some [ProjectFilter ''work'']"]
    applyFilters_four_passes [of ex_hidden "Some [CompleteTasksFilter]"]
    applyFilters_four_passes [of ex_searching None]
  by (simp add: ex_hidden_eq ex_searching_eq ex_bound_eq pass_tree_def pass_search_def pass_future_def
      pass_incomplete_def selects_completed_def filterTasks_def t_report_eq t_rent_eq t_call_eq
      lower_char_def starts_with_def)

text \<open>
  C1. With \<open>showCompleted\<close> false and a filter set that contains a
  \<^verbatim>\<open>CompleteTasksFilter\<close>, the pass that keeps only incomplete tasks is skipped: the
  visible list is the one \<open>showCompleted = True\<close> would give; it is the list of the
  tasks that pass the filter set, the search and the future pass; so every completed
  task that passes those is in the result; and when the filter set is that filter alone
  (no search, future tasks shown) the result is exactly the completed tasks.
\<close>

theorem completed_filter_precedence:
  assumes "CompleteTasksFilter \<in> set fs" and "\<not> showCompleted s"
  shows "tasksList (applyFilters s (Some fs))
           = tasksList (applyFilters (s\<lparr>showCompleted := True\<rparr>) (Some fs))
         \<and> tasksList (applyFilters s (Some fs))
           = filter (\<lambda>t. list_all (\<lambda>f. isMatch (today s) f t) fs
                         \<and> (searchText s = [] \<or> isMatch (today s) (SimpleTextFilter (searchText s)) t)
                         \<and> (showFuture s \<or> isMatch (today s) FutureFilter t))
               (tasks (the_file s))
         \<and> (\<forall>t \<in> set (tasks (the_file s)).
               is_complete t
               \<and> list_all (\<lambda>f. isMatch (today s) f t) fs
               \<and> (searchText s = [] \<or> isMatch (today s) (SimpleTextFilter (searchText s)) t)
               \<and> (showFuture s \<or> isMatch (today s) FutureFilter t)
               \<longrightarrow> t \<in> set (tasksList (applyFilters s (Some fs))))
         \<and> (fs = [CompleteTasksFilter] \<and> searchText s = [] \<and> showFuture s
               \<longrightarrow> tasksList (applyFilters s (Some fs)) = filter is_complete (tasks (the_file s)))"
proof -
  have sel: "selects_completed (Some fs)"
    using assms(1) by (simp add: selects_completed_def)
  have shape: "tasksList (applyFilters s (Some fs))
           = filter (\<lambda>t. list_all (\<lambda>f. isMatch (today s) f t) fs
                         \<and> (searchText s = [] \<or> isMatch (today s) (SimpleTextFilter (searchText s)) t)
                         \<and> (showFuture s \<or> isMatch (today s) FutureFilter t))
               (tasks (the_file s))"
    unfolding tasksList_applyFilters four_passes_def pass_incomplete_def pass_future_def
      pass_search_def pass_tree_def filterTasks_Some
    using sel by (auto simp del: isMatch.simps intro: filter_cong)
  have same: "tasksList (applyFilters s (Some fs))
           = tasksList (applyFilters (s\<lparr>showCompleted := True\<rparr>) (Some fs))"
    unfolding tasksList_applyFilters four_passes_def pass_incomplete_def
    using sel by simp
  have incl: "\<forall>t \<in> set (tasks (the_file s)).
               is_complete t
               \<and> list_all (\<lambda>f. isMatch (today s) f t) fs
               \<and> (searchText s = [] \<or> isMatch (today s) (SimpleTextFilter (searchText s)) t)
               \<and> (showFuture s \<or> isMatch (today s) FutureFilter t)
               \<longrightarrow> t \<in> set (tasksList (applyFilters s (Some fs)))"
    unfolding shape by (simp del: isMatch.simps)
  have single: "fs = [CompleteTasksFilter] \<and> searchText s = [] \<and> showFuture s
               \<longrightarrow> tasksList (applyFilters s (Some fs)) = filter is_complete (tasks (the_file s))"
    unfolding shape by (auto intro: filter_cong)
  show ?thesis
    by (rule conjI [OF same conjI [OF shape conjI [OF incl single]]])
qed

theorem completed_filter_precedence_witness:
  "CompleteTasksFilter \<in> set [CompleteTasksFilter]
   \<and> \<not> showCompleted ex_hidden
   \<and> is_complete t_rent
   \<and> tasksList ex_hidden = [t_report, t_call]
   \<and> tasksList (applyFilters ex_hidden (Some [CompleteTasksFilter])) = [t_rent]"
proof -
  have a: "CompleteTasksFilter \<in> set [CompleteTasksFilter]"
    by simp
  have b: "\<not> showCompleted ex_hidden"
    by (simp add: ex_hidden_eq)
  have c: "searchText ex_hidden = [] \<and> showFuture ex_hidden"
    by (simp add: ex_hidden_eq ex_bound_eq)
  have "tasksList (applyFilters ex_hidden (Some [CompleteTasksFilter]))
          = filter is_complete (tasks (the_file ex_hidden))"
    using completed_filter_precedence [OF a b] c by blast
  also have "\<dots> = [t_rent]"
    by (simp add: ex_hidden_eq ex_bound_eq t_report_eq t_rent_eq t_call_eq)
  finally show ?thesis
    using b by (simp add: ex_hidden_eq t_rent_eq)
qed

section \<open>Saving\<close>

text \<open>
  C3 (the code departs from the claim). The session \<open>ex_bound\<close> has just loaded
  \<^verbatim>\<open>todo.txt\<close> and is not modified. \<^verbatim>\<open>save\<close> succeeds and writes exactly the tasks
  in memory, so memory and disk agree; yet the flag \<open>modified\<close> is true afterwards
  (line 213 assigns \<^verbatim>\<open>True\<close>), and the title carries the mark of unsaved changes.
\<close>

theorem save_leaves_modified_set:
  "fst (save ex_bound) = None
   \<and> disk (snd (save ex_bound)) ''todo.txt''
       = Some (map serialize (tasks (the_file ex_bound)))
   \<and> tasks (the_file (snd (save ex_bound))) = tasks (the_file ex_bound)
   \<and> modified ex_bound = False
   \<and> modified (snd (save ex_bound)) = True
   \<and> title (snd (save ex_bound)) = ''QTodoTxt - todo.txt (*)''"
  by (simp add: save_def File_save_def write_disk_def ex_bound_eq ctl_defs)

section \<open>Deleting a task\<close>

text \<open>
  C4, as the claim states it, fails: \<^verbatim>\<open>deleteTask\<close> of a task that is not in the
  file's list is not silent. Here the task \<open>t_absent\<close> is not in the list of
  \<open>ex_bound\<close>, and the call ends in a \<^verbatim>\<open>ValueError\<close>.
\<close>

theorem deleteTask_absent_counterexample:
  "t_absent \<notin> set (tasks (the_file ex_bound))
   \<and> fst (deleteTask ex_bound (ByTask t_absent)) = Some ValueError"
  by (simp add: deleteTask_def py_remove_def ex_bound_eq t_absent_eq t_report_eq t_rent_eq t_call_eq)

text \<open>
  C4, amended. For every task that is not in the file's task list, \<^verbatim>\<open>deleteTask\<close>
  raises \<^verbatim>\<open>ValueError\<close> (from \<^verbatim>\<open>list.remove\<close>) before it changes anything: the
  task list, the visible list, the modified flag and the rest of the state are as
  before.
\<close>

theorem deleteTask_absent_raises:
  assumes "task \<notin> set (tasks (the_file s))"
  shows "deleteTask s (ByTask task) = (Some ValueError, s)"
  using assms by (simp add: deleteTask_def py_remove_absent)

theorem deleteTask_absent_raises_witness:
  "t_absent \<notin> set (tasks (the_file ex_bound))
   \<and> deleteTask ex_bound (ByTask t_absent) = (Some ValueError, ex_bound)"
proof -
  have "t_absent \<notin> set (tasks (the_file ex_bound))"
    by (simp add: ex_bound_eq t_absent_eq t_report_eq t_rent_eq t_call_eq)
  then show ?thesis
    using deleteTask_absent_raises [of t_absent ex_bound] by simp
qed

section \<open>Opening a file that cannot be read\<close>

text \<open>
  C5 (the code departs from the claim). The session \<open>ex_bound\<close> has \<^verbatim>\<open>todo.txt\<close>
  bound and watched. \<^verbatim>\<open>open\<close> of the missing \<^verbatim>\<open>missing.txt\<close> emits the error signal
  and leaves the bound file, its tasks, the visible list and the modified flag as they
  were; but it has cleared the observer before trying to load, and the failure branch
  returns without the \<^verbatim>\<open>addPath\<close> that the success branch and \<^verbatim>\<open>save\<close> pair with
  \<^verbatim>\<open>clear\<close>. The state is not as before: nothing is watched, and a later change of
  \<^verbatim>\<open>todo.txt\<close> by another program, which was notified before, goes unnoticed.
\<close>

theorem open_failure_drops_watch:
  "disk ex_bound ''missing.txt'' = None
   \<and> open_file ex_bound ''missing.txt'' [] =
       ex_bound\<lparr>watched := [],
         emitted := emitted ex_bound @
           [ErrorSignal (ErrorOpeningFile ''missing.txt'' ErrorLoadingFile)]\<rparr>
   \<and> filename (the_file (open_file ex_bound ''missing.txt'' [])) = ''todo.txt''
   \<and> tasks (the_file (open_file ex_bound ''missing.txt'' [])) = [t_report, t_rent, t_call]
   \<and> watched ex_bound = [''todo.txt'']
   \<and> watched (open_file ex_bound ''missing.txt'' []) = []
   \<and> notifications (write_disk ex_bound ''todo.txt'' [''changed'']) = [''todo.txt'']
   \<and> notifications (write_disk (open_file ex_bound ''missing.txt'' []) ''todo.txt'' [''changed'']) = []"
proof -
  have missing: "disk ex_bound ''missing.txt'' = None"
    by (simp add: ex_bound_eq ex_disk_def)
  have after: "open_file ex_bound ''missing.txt'' [] =
       ex_bound\<lparr>watched := [],
         emitted := emitted ex_bound @
           [ErrorSignal (ErrorOpeningFile ''missing.txt'' ErrorLoadingFile)]\<rparr>"
    unfolding open_file_failed [OF missing, of "[]"] by (simp add: ex_bound_eq)
  show ?thesis
    unfolding after using missing by (simp add: ex_bound_eq write_disk_def)
qed

section \<open>Archiving the completed tasks\<close>

text \<open>
  C6. For every task list, \<^verbatim>\<open>_archive_all_done_tasks\<close> leaves in the file's list
  exactly the tasks that are not complete, in their order, and appends to the done sink
  the line of each completed task, once each, in their order; the removal never raises.
  The sink is written before the removal is attempted: if a removal did fail, the line
  would already be in the sink. (The example of the claim, three tasks of which one is
  complete, is the witness.)
\<close>

theorem archive_removes_completed:
  "tasks (the_file (snd (archive_all_done_tasks s sel)))
     = filter (\<lambda>t. \<not> is_complete t) (tasks (the_file s))
   \<and> done_file (snd (archive_all_done_tasks s sel))
     = done_file s @ map serialize (filter is_complete (tasks (the_file s)))
   \<and> fst (archive_all_done_tasks s sel) \<noteq> Some ValueError
   \<and> (task \<notin> set (tasks (the_file s))
        \<longrightarrow> archive_loop (task # rest) s = (Some ValueError, saveDoneTask s task))"
proof -
  have order: "archive_loop (task # rest) s = (Some ValueError, saveDoneTask s task)"
    if "task \<notin> set (tasks (the_file s))"
    using that by (simp add: Let_def py_remove_def saveDoneTask_def)
  show ?thesis
    unfolding archive_run using order
    by (simp add: onFileUpdated_keeps onFileUpdated_no_ValueError)
qed

theorem archive_removes_completed_witness:
  "length (tasks (the_file ex_bound)) = 3
   \<and> filter is_complete (tasks (the_file ex_bound)) = [t_rent]
   \<and> tasks (the_file (snd (archive_all_done_tasks ex_bound []))) = [t_report, t_call]
   \<and> done_file ex_bound = []
   \<and> done_file (snd (archive_all_done_tasks ex_bound [])) = [''x 2023-02-01 pay rent'']
   \<and> archive_loop [t_absent] ex_bound = (Some ValueError, ex_bound\<lparr>done_file := [''never added'']\<rparr>)"
  using archive_removes_completed [of ex_bound "[]" t_absent "[]"]
  by (simp add: ex_bound_eq t_report_eq t_rent_eq t_call_eq t_absent_eq serialize_def
      saveDoneTask_def)

section \<open>Saving under the observer\<close>

text \<open>
  C7. \<^verbatim>\<open>save\<close> raises no file-changed event for its own write, whatever the observer
  watched before: it clears the watch list before it writes, and, when the write
  succeeds, watches the written path again afterwards. The same write made while the
  path is watched does raise the event.
\<close>

theorem save_raises_no_notification:
  "notifications (snd (save s)) = notifications s
   \<and> (filename (the_file s) \<noteq> [] \<and> filename (the_file s) \<notin> set (readonly s)
        \<longrightarrow> fst (save s) = None
          \<and> disk (snd (save s)) (filename (the_file s))
              = Some (map serialize (tasks (the_file s)))
          \<and> watched (snd (save s)) = [filename (the_file s)])
   \<and> (path \<in> set (watched s) \<and> path \<notin> set (readonly s)
        \<longrightarrow> notifications (snd (File_save s path)) = notifications s @ [path])"
proof -
  have quiet: "notifications (snd (save s)) = notifications s"
    by (auto simp: save_def File_save_def write_disk_def observer_clear_def addPath_def Let_def
        split: prod.splits if_splits)
  have written: "fst (save s) = None
          \<and> disk (snd (save s)) (filename (the_file s))
              = Some (map serialize (tasks (the_file s)))
          \<and> watched (snd (save s)) = [filename (the_file s)]"
    if "filename (the_file s) \<noteq> []" "filename (the_file s) \<notin> set (readonly s)"
    using that
    by (simp add: save_def File_save_def write_disk_def observer_clear_def addPath_def Let_def)
  have loud: "notifications (snd (File_save s path)) = notifications s @ [path]"
    if "path \<in> set (watched s)" "path \<notin> set (readonly s)"
    using that by (simp add: File_save_def write_disk_def)
  show ?thesis
    using quiet written loud by blast
qed

theorem save_raises_no_notification_witness:
  "watched ex_bound = [''todo.txt'']
   \<and> notifications (snd (save ex_bound)) = []
   \<and> fst (save ex_bound) = None
   \<and> disk (snd (save ex_bound)) ''todo.txt''
       = Some [''(A) Write report +work'', ''x 2023-02-01 pay rent'', ''call mum'']
   \<and> watched (snd (save ex_bound)) = [''todo.txt'']
   \<and> notifications (snd (File_save ex_bound ''todo.txt'')) = [''todo.txt'']"
  using save_raises_no_notification [of ex_bound "''todo.txt''"]
  by (simp add: ex_bound_eq t_report_eq t_rent_eq t_call_eq serialize_def)

section \<open>Creating a task\<close>

text \<open>
  C10, as the claim states it, fails for an index outside the visible list, and for an
  index outside the range of a machine integer. With three visible tasks,
  \<^verbatim>\<open>newTask('', 5)\<close> returns 6 and the new task is at position 3, the end of a list of
  four; \<^verbatim>\<open>newTask('', -3)\<close> returns -2 and the new task is at position 1; and
  \<^verbatim>\<open>newTask('', 2**63 - 1)\<close> returns nothing: \<^verbatim>\<open>insert\<close> raises \<^verbatim>\<open>OverflowError\<close>, when the
  task is already in the file's list, and the visible list and the modified flag are as
  before.
\<close>

theorem newTask_position_counterexample:
  "length (tasksList ex_bound) = 3
   \<and> fst (newTask ex_bound [] (Some 5)) = Inr 6
   \<and> tasksList (snd (newTask ex_bound [] (Some 5))) = [t_report, t_rent, t_call, new_Task 3 []]
   \<and> fst (newTask ex_bound [] (Some (- 3))) = Inr (- 2)
   \<and> tasksList (snd (newTask ex_bound [] (Some (- 3)))) = [t_report, new_Task 3 [], t_rent, t_call]
   \<and> fst (newTask ex_bound [] (Some 9223372036854775807)) = Inl OverflowError
   \<and> tasks (the_file (snd (newTask ex_bound [] (Some 9223372036854775807))))
       = [t_report, t_rent, t_call, new_Task 3 []]
   \<and> tasksList (snd (newTask ex_bound [] (Some 9223372036854775807))) = [t_report, t_rent, t_call]
   \<and> modified (snd (newTask ex_bound [] (Some 9223372036854775807))) = False"
  by (simp add: newTask_def Let_def py_insert_def ssize_max_def ssize_min_def ex_bound_eq)

text \<open>
  C10, amended. Let \<open>n\<close> be the length of the visible list, the length of a Python list
  and so a machine integer. With \<open>after = None\<close>, \<^verbatim>\<open>newTask\<close> returns \<open>n\<close> and puts the
  new task at the end of the visible list. For every integer \<open>after\<close> with \<open>after + 1\<close> in
  the range of a machine integer it returns \<open>after + 1\<close> and appends the new task to the
  file's task list; the new task is at position \<open>after + 1\<close> of the visible list when
  \<open>0 \<le> after + 1 \<le> n\<close>, at the end when \<open>after + 1 > n\<close>, and at position
  \<open>max 0 (n + after + 1)\<close> when \<open>after + 1 < 0\<close>, as \<^verbatim>\<open>list.insert\<close> places it (\<open>nat\<close> of
  a negative number is 0).
\<close>

theorem newTask_position:
  "(int (length (tasksList s)) \<le> ssize_max
      \<longrightarrow> fst (newTask s txt None) = Inr (int (length (tasksList s)))
        \<and> tasksList (snd (newTask s txt None)) = tasksList s @ [new_Task (next_id s) txt]
        \<and> tasks (the_file (snd (newTask s txt None)))
            = tasks (the_file s) @ [new_Task (next_id s) txt])
   \<and> (ssize_min \<le> a + 1 \<and> a + 1 \<le> ssize_max
      \<longrightarrow> fst (newTask s txt (Some a)) = Inr (a + 1)
        \<and> tasks (the_file (snd (newTask s txt (Some a))))
            = tasks (the_file s) @ [new_Task (next_id s) txt]
        \<and> (0 \<le> a + 1 \<and> a + 1 \<le> int (length (tasksList s))
             \<longrightarrow> tasksList (snd (newTask s txt (Some a)))
                   = take (nat (a + 1)) (tasksList s) @ [new_Task (next_id s) txt]
                       @ drop (nat (a + 1)) (tasksList s)
               \<and> tasksList (snd (newTask s txt (Some a))) ! nat (a + 1) = new_Task (next_id s) txt)
        \<and> (int (length (tasksList s)) < a + 1
             \<longrightarrow> tasksList (snd (newTask s txt (Some a))) = tasksList s @ [new_Task (next_id s) txt])
        \<and> (a + 1 < 0
             \<longrightarrow> tasksList (snd (newTask s txt (Some a)))
                   = take (nat (int (length (tasksList s)) + (a + 1))) (tasksList s)
                       @ [new_Task (next_id s) txt]
                       @ drop (nat (int (length (tasksList s)) + (a + 1))) (tasksList s)))"
proof -
  let ?t = "new_Task (next_id s) txt"
  let ?n = "int (length (tasksList s))"
  let ?xs = "tasksList s"
  have at_end: "fst (newTask s txt None) = Inr ?n
        \<and> tasksList (snd (newTask s txt None)) = ?xs @ [?t]
        \<and> tasks (the_file (snd (newTask s txt None))) = tasks (the_file s) @ [?t]"
    if "?n \<le> ssize_max"
  proof -
    have "py_insert ?xs (case None of None \<Rightarrow> ?n | Some a \<Rightarrow> a + 1) ?t = Some (?xs @ [?t])"
      using that by (simp add: py_insert_beyond)
    from newTask_inserted(1,2) [OF this] show ?thesis
      by (simp add: newTask_appends)
  qed
  have given: "fst (newTask s txt (Some a)) = Inr (a + 1)
        \<and> tasks (the_file (snd (newTask s txt (Some a)))) = tasks (the_file s) @ [?t]
        \<and> (0 \<le> a + 1 \<and> a + 1 \<le> ?n
             \<longrightarrow> tasksList (snd (newTask s txt (Some a)))
                   = take (nat (a + 1)) ?xs @ [?t] @ drop (nat (a + 1)) ?xs
               \<and> tasksList (snd (newTask s txt (Some a))) ! nat (a + 1) = ?t)
        \<and> (?n < a + 1 \<longrightarrow> tasksList (snd (newTask s txt (Some a))) = ?xs @ [?t])
        \<and> (a + 1 < 0
             \<longrightarrow> tasksList (snd (newTask s txt (Some a)))
                   = take (nat (?n + (a + 1))) ?xs @ [?t] @ drop (nat (?n + (a + 1))) ?xs)"
    if range: "ssize_min \<le> a + 1 \<and> a + 1 \<le> ssize_max"
  proof -
    obtain visible where some: "py_insert ?xs (a + 1) ?t = Some visible"
      using range py_insert_None [of ?xs "a + 1" ?t] by (cases "py_insert ?xs (a + 1) ?t") auto
    then have call: "py_insert ?xs (case Some a of None \<Rightarrow> ?n | Some a \<Rightarrow> a + 1) ?t = Some visible"
      by simp
    have ret: "fst (newTask s txt (Some a)) = Inr (a + 1)"
      using newTask_inserted(1) [OF call] by simp
    have vis: "tasksList (snd (newTask s txt (Some a))) = visible"
      using newTask_inserted(2) [OF call] .
    have inside: "visible = take (nat (a + 1)) ?xs @ [?t] @ drop (nat (a + 1)) ?xs
               \<and> visible ! nat (a + 1) = ?t"
      if "0 \<le> a + 1 \<and> a + 1 \<le> ?n"
    proof -
      have "visible = take (nat (a + 1)) ?xs @ [?t] @ drop (nat (a + 1)) ?xs"
        using that range some py_insert_inside [of "a + 1" ?xs ?t] by simp
      moreover have "nat (a + 1) \<le> length ?xs"
        using that by arith
      then have "(take (nat (a + 1)) ?xs @ [?t] @ drop (nat (a + 1)) ?xs) ! nat (a + 1) = ?t"
        by (simp add: nth_append min_def)
      ultimately show ?thesis by simp
    qed
    have beyond: "visible = ?xs @ [?t]" if "?n < a + 1"
      using that range some py_insert_beyond [of ?xs "a + 1" ?t] by simp
    have negative: "visible = take (nat (?n + (a + 1))) ?xs @ [?t] @ drop (nat (?n + (a + 1))) ?xs"
      if "a + 1 < 0"
      using that range some py_insert_negative [of "a + 1" ?xs ?t] by simp
    have appended: "tasks (the_file (snd (newTask s txt (Some a)))) = tasks (the_file s) @ [?t]"
      by (simp add: newTask_appends)
    show ?thesis
      unfolding vis using ret appended inside beyond negative by blast
  qed
  show ?thesis
    using at_end given by blast
qed

theorem newTask_position_witness:
  "fst (newTask ex_bound [] None) = Inr 3
   \<and> tasksList (snd (newTask ex_bound [] None)) = [t_report, t_rent, t_call, new_Task 3 []]
   \<and> tasks (the_file (snd (newTask ex_bound [] None))) = [t_report, t_rent, t_call, new_Task 3 []]
   \<and> fst (newTask ex_bound [] (Some 0)) = Inr 1
   \<and> tasksList (snd (newTask ex_bound [] (Some 0))) = [t_report, new_Task 3 [], t_rent, t_call]
   \<and> tasksList (snd (newTask ex_bound [] (Some 0))) ! 1 = new_Task 3 []
   \<and> tasks (the_file (snd (newTask ex_bound [] (Some 0)))) = [t_report, t_rent, t_call, new_Task 3 []]
   \<and> tasksList (snd (newTask ex_bound [] (Some 7))) = [t_report, t_rent, t_call, new_Task 3 []]
   \<and> tasksList (snd (newTask ex_bound [] (Some (- 6)))) = [new_Task 3 [], t_report, t_rent, t_call]"
  using newTask_position [of ex_bound "[]" 0] newTask_position [of ex_bound "[]" 7]
    newTask_position [of ex_bound "[]" "- 6"]
  by (simp add: ex_bound_eq ssize_max_def ssize_min_def)

section \<open>Mutations, the modified flag and the visible list\<close>




section \<open>Every task is wired to the session once\<close>

text \<open>
  C9. In every state the session reaches from its start state, by any sequence of
  \<^verbatim>\<open>newTask\<close>, \<^verbatim>\<open>deleteTask\<close>, filter applications, archiving, \<^verbatim>\<open>save\<close>,
  \<^verbatim>\<open>open\<close> (also when a file-changed event calls it), edits of a task's text, changes
  of the search text and of the toggles, and writes by other programs, every task of the
  file, loaded or created, has its \<^verbatim>\<open>modified\<close> signal connected to
  \<^verbatim>\<open>_taskModified\<close> exactly once; so an edit of its text in place sets the session's
  modified flag.
\<close>

theorem every_task_wired_once:
  assumes "s = run (init d ro now lof asv) acts"
    and "task \<in> set (tasks (the_file s))"
  shows "count_list (connections s) (task_id task) = 1 \<and> modified (edit_task s task txt)"
proof -
  have "wired_once s"
    unfolding assms(1) by (intro wired_once_run wired_once_init)
  then have "count_list (connections s) (task_id task) = 1"
    using assms(2) unfolding wired_once_def by blast
  then show ?thesis
    by (simp add: edit_task_modified)
qed

theorem every_task_wired_once_witness:
  "ex_bound = run (init ex_disk [] (2023, 1, 5) None None) [Open ''todo.txt'' [], ApplyFilters None]
   \<and> t_rent \<in> set (tasks (the_file ex_bound))
   \<and> modified ex_bound = False
   \<and> count_list (connections ex_bound) (task_id t_rent) = 1
   \<and> modified (edit_task ex_bound t_rent ''x 2023-02-01 pay the rent'')"
proof -
  have a: "ex_bound = run (init ex_disk [] (2023, 1, 5) None None) [Open ''todo.txt'' [], ApplyFilters None]"
    by (simp add: ex_bound_def ex_init_def)
  have b: "t_rent \<in> set (tasks (the_file ex_bound))"
    by (simp add: ex_bound_eq)
  have c: "modified ex_bound = False"
    by (simp add: ex_bound_eq)
  note d = every_task_wired_once [OF a b, of "''x 2023-02-01 pay the rent''"]
  show ?thesis
    using a b c d by blast
qed

end
